theory Spec2Isabelle
  imports Complex_Main
begin

section \<open>JavaScript values\<close>

text \<open>
  The connector computes with JavaScript numbers and with \<open>undefined\<close>.  A value
  is \<open>undefined\<close>, \<open>NaN\<close>, an infinity or a finite number, held as a rational within
  the range of the doubles.  A string that the source hands to \<open>Number\<close> or
  \<open>Math.round\<close> (a facet name, a refinement value, the argument of \<open>refine\<close>) is
  held by its numeric reading.
\<close>

datatype jsval = Undefined | NaN | Num rat | PosInfinity | NegInfinity

text \<open>\<open>!x\<close> is \<open>\<not> truthy x\<close>: \<open>undefined\<close>, \<open>NaN\<close> and \<open>0\<close> are falsy.\<close>

fun truthy :: "jsval \<Rightarrow> bool" where
  "truthy Undefined = False"
| "truthy NaN = False"
| "truthy (Num r) = (r \<noteq> 0)"
| "truthy PosInfinity = True"
| "truthy NegInfinity = True"

text \<open>\<open>Number(x)\<close>: \<open>undefined\<close> becomes \<open>NaN\<close>, a number is itself.\<close>

fun Number :: "jsval \<Rightarrow> jsval" where
  "Number Undefined = NaN"
| "Number NaN = NaN"
| "Number (Num r) = Num r"
| "Number PosInfinity = PosInfinity"
| "Number NegInfinity = NegInfinity"

text \<open>\<open>a < b\<close>, \<open>a > b\<close>, \<open>a <= b\<close>: false as soon as a side is not a number.\<close>

fun js_lt :: "jsval \<Rightarrow> jsval \<Rightarrow> bool" where
  "js_lt (Num a) (Num b) = (a < b)"
| "js_lt NegInfinity (Num b) = True"
| "js_lt NegInfinity PosInfinity = True"
| "js_lt (Num a) PosInfinity = True"
| "js_lt _ _ = False"

definition js_gt :: "jsval \<Rightarrow> jsval \<Rightarrow> bool" where
  "js_gt a b = js_lt b a"

fun js_le :: "jsval \<Rightarrow> jsval \<Rightarrow> bool" where
  "js_le (Num a) (Num b) = (a \<le> b)"
| "js_le NegInfinity (Num b) = True"
| "js_le NegInfinity PosInfinity = True"
| "js_le NegInfinity NegInfinity = True"
| "js_le (Num a) PosInfinity = True"
| "js_le PosInfinity PosInfinity = True"
| "js_le _ _ = False"

text \<open>\<open>a === b\<close>: \<open>NaN\<close> equals nothing, itself included.\<close>

fun strict_eq :: "jsval \<Rightarrow> jsval \<Rightarrow> bool" where
  "strict_eq Undefined Undefined = True"
| "strict_eq (Num a) (Num b) = (a = b)"
| "strict_eq PosInfinity PosInfinity = True"
| "strict_eq NegInfinity NegInfinity = True"
| "strict_eq _ _ = False"

text \<open>
  \<open>a + b\<close> on numbers and \<open>undefined\<close>: \<open>undefined + n\<close> is \<open>NaN\<close>, and so is the sum of
  the two infinities.  The sum of two finite numbers is taken exactly: it is what
  the counts of \<open>render\<close> are added with, and these are integers far below \<open>2\<^sup>5\<^sup>3\<close>.
\<close>

fun js_add :: "jsval \<Rightarrow> jsval \<Rightarrow> jsval" where
  "js_add (Num a) (Num b) = Num (a + b)"
| "js_add PosInfinity (Num b) = PosInfinity"
| "js_add (Num a) PosInfinity = PosInfinity"
| "js_add PosInfinity PosInfinity = PosInfinity"
| "js_add NegInfinity (Num b) = NegInfinity"
| "js_add (Num a) NegInfinity = NegInfinity"
| "js_add NegInfinity NegInfinity = NegInfinity"
| "js_add _ _ = NaN"

text \<open>
  \<open>++val\<close> adds \<open>1\<close> in double precision.  From \<open>2\<^sup>5\<^sup>2\<close> on the doubles are integers,
  \<open>ulp_of\<close> apart (1 below \<open>2\<^sup>5\<^sup>3\<close>, then 2, then 4, \<open>\<dots>\<close>), and the sum is rounded
  to the nearest of them, a tie going to the one with the even significand.  Below
  \<open>2\<^sup>5\<^sup>2\<close> the model keeps the exact sum (the rounding of the fraction bits is left
  out).  An infinity stays what it is.
\<close>

definition round_even :: "rat \<Rightarrow> int" where
  "round_even q =
     (let f = \<lfloor>q\<rfloor>; d = q - of_int f
      in if d < 1 / 2 then f
         else if 1 / 2 < d then f + 1
         else if even f then f else f + 1)"

function ulp_of :: "nat \<Rightarrow> nat" where
  "ulp_of n = (if n < 2 ^ 53 then 1 else 2 * ulp_of (n div 2))"
  by pat_completeness auto
termination
proof (relation "measure id")
  show "wf (measure id)"
    by simp
next
  fix n :: nat
  assume "\<not> n < 2 ^ 53"
  then have "0 < n"
    by (cases n) simp_all
  then show "(n div 2, n) \<in> measure id"
    by simp
qed

declare ulp_of.simps [simp del]

definition to_double :: "rat \<Rightarrow> rat" where
  "to_double x =
     (if \<bar>x\<bar> < 2 ^ 52 then x
      else (let u = of_nat (ulp_of (nat \<lfloor>\<bar>x\<bar>\<rfloor>))
            in u * of_int (round_even (x / u))))"

fun js_inc :: "jsval \<Rightarrow> jsval" where
  "js_inc (Num r) = Num (to_double (r + 1))"
| "js_inc PosInfinity = PosInfinity"
| "js_inc NegInfinity = NegInfinity"
| "js_inc _ = NaN"

text \<open>\<open>Math.round(x)\<close>: the nearest integer, a tie going up; an infinity is itself.\<close>

fun Math_round :: "jsval \<Rightarrow> jsval" where
  "Math_round (Num r) = Num (of_int \<lfloor>r + 1 / 2\<rfloor>)"
| "Math_round PosInfinity = PosInfinity"
| "Math_round NegInfinity = NegInfinity"
| "Math_round _ = NaN"

text \<open>
  \<open>String(n)\<close> for an integer \<open>n\<close>: its decimal digits, with a sign when negative
  (what JavaScript prints below \<open>10\<^sup>2\<^sup>1\<close>).
\<close>

definition digit :: "nat \<Rightarrow> char" where
  "digit d = ''0123456789'' ! d"

function string_of_nat :: "nat \<Rightarrow> string" where
  "string_of_nat n =
     (if n < 10 then [digit n] else string_of_nat (n div 10) @ [digit (n mod 10)])"
  by pat_completeness auto
termination
  by (relation "measure id") auto

declare string_of_nat.simps [simp del]

definition String :: "int \<Rightarrow> string" where
  "String i = (if i < 0 then CHR ''-'' # string_of_nat (nat (- i)) else string_of_nat (nat i))"

section \<open>The collaborators: search helper and results\<close>

text \<open>
  Modelled from the spec: the search state helper is not part of the connector's
  file.  It holds, per attribute, the sequence of values currently refined (a set: a
  value is held once, in the order of insertion), and offers
  \<open>getRefinements\<close>, \<open>clearRefinements\<close>, \<open>addDisjunctiveFacetRefinement\<close> and
  \<open>search\<close>.  Every call is recorded, in order, in \<open>calls\<close>.
\<close>

datatype call =
    GetRefinements string
  | ClearRefinements string
  | AddDisjunctiveFacetRefinement string jsval
  | Search

record helper =
  refinements :: "string \<Rightarrow> jsval list"
  calls :: "call list"

definition getRefinements :: "helper \<Rightarrow> string \<Rightarrow> jsval list \<times> helper" where
  "getRefinements h a = (refinements h a, h\<lparr>calls := calls h @ [GetRefinements a]\<rparr>)"

definition clearRefinements :: "helper \<Rightarrow> string \<Rightarrow> helper" where
  "clearRefinements h a =
     h\<lparr>refinements := (refinements h)(a := []), calls := calls h @ [ClearRefinements a]\<rparr>"

definition addDisjunctiveFacetRefinement :: "helper \<Rightarrow> string \<Rightarrow> jsval \<Rightarrow> helper" where
  "addDisjunctiveFacetRefinement h a v =
     h\<lparr>refinements := (refinements h)
          (a := (if v \<in> set (refinements h a) then refinements h a else refinements h a @ [v])),
       calls := calls h @ [AddDisjunctiveFacetRefinement a v]\<rparr>"

definition search :: "helper \<Rightarrow> helper" where
  "search h = h\<lparr>calls := calls h @ [Search]\<rparr>"

text \<open>
  Modelled from the spec: the results object, with \<open>getFacetValues(attribute)\<close> a
  sequence of facets \<open>{name, count}\<close> and the number of hits (\<open>nbHits\<close> in the source,
  \<open>totalHits\<close> in the specification).
\<close>

record facet =
  facet_name :: jsval
  facet_count :: jsval

record results =
  facets :: "string \<Rightarrow> facet list"
  nbHits :: jsval

definition getFacetValues :: "results \<Rightarrow> string \<Rightarrow> facet list" where
  "getFacetValues res a = facets res a"

section \<open>Construction\<close>

text \<open>The one error of the connector: \<open>new Error(usage)\<close>.\<close>

datatype error = Usage

text \<open>What the caller passes as \<open>renderFn\<close>: nothing, a value that is no function, or a function.\<close>

datatype rendering = NotProvided | NotCallable | Callable

text \<open>
  Modelled from the spec: \<open>checkRendering\<close> of \<open>lib/utils.js\<close> is not among the
  sources; it raises the usage error when the render callback is absent or not
  invocable.
\<close>

fun checkRendering :: "rendering \<Rightarrow> error + unit" where
  "checkRendering Callable = Inr ()"
| "checkRendering _ = Inl Usage"

text \<open>\<open>widgetParams\<close>: a field the caller left out is \<open>None\<close>.\<close>

record widgetParams =
  wp_attributeName :: "string option"
  wp_max :: "int option"

text \<open>
  The widget: the constants its methods close over.  \<open>max\<close> is an integer, as the
  configuration has it.
\<close>

record widget =
  attributeName :: string
  maxv :: int
  params :: widgetParams

text \<open>\<open>!attributeName\<close>: a missing or an empty name.\<close>

fun falsy_name :: "string option \<Rightarrow> bool" where
  "falsy_name None = True"
| "falsy_name (Some s) = (s = [])"

definition widgetFactory :: "widgetParams option \<Rightarrow> error + widget" where
  "widgetFactory given =
     (let widgetParams = (case given of
                            None \<Rightarrow> \<lparr>wp_attributeName = None, wp_max = None\<rparr>
                          | Some p \<Rightarrow> p);
          name = wp_attributeName widgetParams;
          mx = (case wp_max widgetParams of None \<Rightarrow> 5 | Some m \<Rightarrow> m)
      in if falsy_name name then Inl Usage
         else (case name of
                 None \<Rightarrow> Inl Usage
               | Some a \<Rightarrow> Inr \<lparr>attributeName = a, maxv = mx, params = widgetParams\<rparr>))"

definition connectStarRating ::
  "rendering \<Rightarrow> error + (widgetParams option \<Rightarrow> error + widget)" where
  "connectStarRating renderFn =
     (case checkRendering renderFn of
        Inl e \<Rightarrow> Inl e
      | Inr _ \<Rightarrow> Inr widgetFactory)"

text \<open>Connecting the render function, then building the widget from its parameters.\<close>

definition build :: "rendering \<Rightarrow> widgetParams option \<Rightarrow> error + widget" where
  "build renderFn given =
     (case connectStarRating renderFn of
        Inl e \<Rightarrow> Inl e
      | Inr factory \<Rightarrow> factory given)"

definition getConfiguration :: "widget \<Rightarrow> string list" where
  "getConfiguration w = [attributeName w]"

section \<open>The widget's methods\<close>

text \<open>
  What \<open>renderFn\<close> is called with: the rendering options and the flag
  \<open>isFirstRendering\<close>.  The \<open>refine\<close> callback is the widget's \<open>_toggleRefinement\<close>
  bound to the helper; \<open>createURL\<close> and \<open>instantSearchInstance\<close> are the host's and
  are passed through, they are left out.
\<close>

record item =
  item_stars :: "bool list"
  item_name :: string
  item_value :: string
  item_count :: jsval
  item_isRefined :: bool

record renderingOptions =
  items :: "item list"
  hasNoResults :: bool
  refine :: "helper \<Rightarrow> jsval \<Rightarrow> helper option"
  widgetParams :: widgetParams

subsection \<open>\<open>_getRefinedStar\<close>\<close>

text \<open>The body of the \<open>forEach\<close> over the refinements, on the variable \<open>refinedStar\<close>.\<close>

definition refinedStar_step :: "jsval \<Rightarrow> jsval \<Rightarrow> jsval" where
  "refinedStar_step refinedStar r =
     (if \<not> truthy refinedStar \<or> js_lt (Number r) refinedStar then Number r
      else refinedStar)"

definition getRefinedStar :: "widget \<Rightarrow> helper \<Rightarrow> jsval \<times> helper" where
  "getRefinedStar w h =
     (case getRefinements h (attributeName w) of
        (rs, h') \<Rightarrow> (foldl refinedStar_step Undefined rs, h'))"

subsection \<open>\<open>_toggleRefinement\<close>\<close>

text \<open>
  \<open>for (let val = Number(facetValue); val <= max; ++val)\<close>, adding \<open>val\<close> each time.
  The loop need not end: \<open>++val\<close> leaves \<open>-Infinity\<close> and the numbers of large
  magnitude where they are.  \<open>None\<close> is the loop that does not return.
\<close>

partial_function (option) refine_loop ::
  "string \<Rightarrow> int \<Rightarrow> jsval \<Rightarrow> helper \<Rightarrow> helper option" where
  "refine_loop a mx val h =
     (if js_le val (Num (of_int mx))
      then refine_loop a mx (js_inc val) (addDisjunctiveFacetRefinement h a val)
      else Some h)"

text \<open>\<open>None\<close> when the loop does not return: \<open>search\<close> is then never reached.\<close>

definition toggleRefinement :: "widget \<Rightarrow> helper \<Rightarrow> jsval \<Rightarrow> helper option" where
  "toggleRefinement w helper facetValue =
     (case getRefinedStar w helper of
        (refinedStar, h1) \<Rightarrow>
          (let isRefined = strict_eq refinedStar (Number facetValue);
               h2 = clearRefinements h1 (attributeName w)
           in case (if \<not> isRefined
                    then refine_loop (attributeName w) (maxv w) (Number facetValue) h2
                    else Some h2) of
                None \<Rightarrow> None
              | Some h3 \<Rightarrow> Some (search h3)))"

subsection \<open>\<open>init\<close>\<close>

definition init :: "widget \<Rightarrow> helper \<Rightarrow> renderingOptions \<times> bool" where
  "init w helper =
     (\<lparr>items = [], hasNoResults = True, refine = toggleRefinement w,
       widgetParams = params w\<rparr>, True)"

subsection \<open>\<open>render\<close>\<close>

text \<open>
  \<open>allValues\<close> is an object keyed by integers; a key never written reads as
  \<open>undefined\<close>.
\<close>

type_synonym table = "int \<Rightarrow> jsval"

text \<open>\<open>for (let v = max; v >= 0; --v) allValues[v] = 0\<close>\<close>

function zero_loop :: "int \<Rightarrow> table \<Rightarrow> table" where
  "zero_loop v allValues =
     (if v \<ge> 0 then zero_loop (v - 1) (allValues(v := Num 0)) else allValues)"
  by pat_completeness auto
termination
  by (relation "measure (\<lambda>(v, t). nat (v + 1))") auto

declare zero_loop.simps [simp del]

text \<open>\<open>for (let v = val; v >= 1; --v) allValues[v] += facet.count\<close>\<close>

function count_loop :: "int \<Rightarrow> jsval \<Rightarrow> table \<Rightarrow> table" where
  "count_loop v c allValues =
     (if v \<ge> 1 then count_loop (v - 1) c (allValues(v := js_add (allValues v) c))
      else allValues)"
  by pat_completeness auto
termination
  by (relation "measure (\<lambda>(v, c, t). nat v)") auto

declare count_loop.simps [simp del]

text \<open>
  The callback of the \<open>forEach\<close> over the facet values.  Past the guard \<open>val\<close> is
  an integer, so that the loop variable starts at \<open>\<lfloor>val\<rfloor>\<close>, or it is \<open>-Infinity\<close>, and
  the body of \<open>for (let v = val; v >= 1; --v)\<close> never runs.
\<close>

definition facet_callback :: "int \<Rightarrow> table \<Rightarrow> facet \<Rightarrow> table" where
  "facet_callback mx allValues f =
     (let val = Math_round (facet_name f)
      in if \<not> truthy val \<or> js_gt val (Num (of_int mx)) then allValues
         else (case val of
                 Num r \<Rightarrow> count_loop \<lfloor>r\<rfloor> (facet_count f) allValues
               | _ \<Rightarrow> allValues))"

text \<open>\<open>for (let i = 1; i <= max; ++i) stars.push(i <= star)\<close>\<close>

function stars_loop :: "int \<Rightarrow> int \<Rightarrow> int \<Rightarrow> bool list \<Rightarrow> bool list" where
  "stars_loop mx star i stars =
     (if i \<le> mx then stars_loop mx star (i + 1) (stars @ [i \<le> star]) else stars)"
  by pat_completeness auto
termination
  by (relation "measure (\<lambda>(mx, star, i, stars). nat (mx + 1 - i))") auto

declare stars_loop.simps [simp del]

text \<open>\<open>for (let star = max - 1; star >= 1; --star)\<close>, pushing to \<open>facetValues\<close>.\<close>

function bucket_loop :: "int \<Rightarrow> table \<Rightarrow> jsval \<Rightarrow> int \<Rightarrow> item list \<Rightarrow> item list" where
  "bucket_loop mx allValues refinedStar star facetValues =
     (if star \<ge> 1
      then (let count = allValues star
            in if truthy refinedStar \<and> \<not> strict_eq (Num (of_int star)) refinedStar
                  \<and> strict_eq count (Num 0)
               then bucket_loop mx allValues refinedStar (star - 1) facetValues
               else bucket_loop mx allValues refinedStar (star - 1)
                      (facetValues @
                         [\<lparr>item_stars = stars_loop mx star 1 [],
                           item_name = String star,
                           item_value = String star,
                           item_count = count,
                           item_isRefined = strict_eq refinedStar (Num (of_int star))\<rparr>]))
      else facetValues)"
  by pat_completeness auto
termination
  by (relation "measure (\<lambda>(mx, t, rs, star, acc). nat star)") auto

declare bucket_loop.simps [simp del]

text \<open>The table once every facet value of the results has been counted.\<close>

definition allValues_of :: "widget \<Rightarrow> results \<Rightarrow> table" where
  "allValues_of w res =
     foldl (facet_callback (maxv w)) (zero_loop (maxv w) (\<lambda>v. Undefined))
       (getFacetValues res (attributeName w))"

definition render :: "widget \<Rightarrow> helper \<Rightarrow> results \<Rightarrow> helper \<times> renderingOptions \<times> bool" where
  "render w helper res =
     (let allValues = allValues_of w res
      in case getRefinedStar w helper of
           (refinedStar, h') \<Rightarrow>
             (h',
              \<lparr>items = bucket_loop (maxv w) allValues refinedStar (maxv w - 1) [],
                hasNoResults = strict_eq (nbHits res) (Num 0),
                refine = toggleRefinement w,
                widgetParams = params w\<rparr>,
              False))"

section \<open>Closed forms used to state the properties\<close>

text \<open>
  The numbers \<open>r\<close>, \<open>r + 1\<close>, \<open>r + 2\<close>, \<open>\<dots>\<close> that are at most \<open>max\<close>, in this order, and
  where the loop of \<open>_toggleRefinement\<close> adds them exactly: \<open>safe r max\<close> holds when
  \<open>max\<close> is below \<open>2\<^sup>5\<^sup>2\<close> and \<open>r\<close> is at least \<open>-2\<^sup>5\<^sup>2\<close>, or \<open>max\<close> is below \<open>2\<^sup>5\<^sup>3\<close> and
  \<open>r\<close> is an integer that is at least \<open>-2\<^sup>5\<^sup>3\<close>.
\<close>

function upward :: "rat \<Rightarrow> int \<Rightarrow> jsval list" where
  "upward r mx = (if r \<le> of_int mx then Num r # upward (r + 1) mx else [])"
  by pat_completeness auto
termination
proof (relation "measure (\<lambda>(r, mx). nat (\<lfloor>of_int mx - r\<rfloor> + 1))")
  show "wf (measure (\<lambda>(r, mx). nat (\<lfloor>of_int mx - r\<rfloor> + 1)))"
    by simp
next
  fix r :: rat and mx :: int
  assume r: "r \<le> of_int mx"
  have "of_int mx - (r + 1) = (of_int mx - r) - 1"
    by simp
  then have "\<lfloor>of_int mx - (r + 1)\<rfloor> = \<lfloor>of_int mx - r\<rfloor> - 1"
    by (simp only: floor_diff_one)
  moreover have "0 \<le> \<lfloor>of_int mx - r\<rfloor>"
    using r by simp
  ultimately show "((r + 1, mx), (r, mx))
      \<in> measure (\<lambda>(r, mx). nat (\<lfloor>of_int mx - r\<rfloor> + 1))"
    by simp
qed

declare upward.simps [simp del]

definition safe :: "rat \<Rightarrow> int \<Rightarrow> bool" where
  "safe r mx \<longleftrightarrow>
     (- (2 ^ 52) \<le> r \<and> mx < 2 ^ 52)
     \<or> (of_int \<lfloor>r\<rfloor> = r \<and> - (2 ^ 53) \<le> r \<and> mx < 2 ^ 53)"

text \<open>
  The test that makes \<open>render\<close> leave a threshold out, and the item it pushes
  otherwise.
\<close>

definition skipped :: "table \<Rightarrow> jsval \<Rightarrow> int \<Rightarrow> bool" where
  "skipped allValues refinedStar star \<longleftrightarrow>
     truthy refinedStar \<and> \<not> strict_eq (Num (of_int star)) refinedStar
       \<and> strict_eq (allValues star) (Num 0)"

definition bucket :: "int \<Rightarrow> table \<Rightarrow> jsval \<Rightarrow> int \<Rightarrow> item" where
  "bucket mx allValues refinedStar star =
     \<lparr>item_stars = map (\<lambda>i. i \<le> star) [1..mx],
      item_name = String star,
      item_value = String star,
      item_count = allValues star,
      item_isRefined = strict_eq refinedStar (Num (of_int star))\<rparr>"

text \<open>
  Whether \<open>render\<close> counts a facet value at the index \<open>v\<close> (for \<open>v \<ge> 1\<close>): its name
  rounds to a number from \<open>v\<close> to \<open>max\<close>.
\<close>

definition counted :: "int \<Rightarrow> int \<Rightarrow> facet \<Rightarrow> bool" where
  "counted mx v f =
     (case Math_round (facet_name f) of
        Num r \<Rightarrow> of_int v \<le> r \<and> r \<le> of_int mx
      | _ \<Rightarrow> False)"

section \<open>A widget, a helper and results to evaluate on\<close>

definition ex_widget :: widget where
  "ex_widget = \<lparr>attributeName = ''rating'', maxv = 5,
                 params = \<lparr>wp_attributeName = Some ''rating'', wp_max = None\<rparr>\<rparr>"

definition ex_helper :: "jsval list \<Rightarrow> helper" where
  "ex_helper rs = \<lparr>refinements = (\<lambda>a. if a = ''rating'' then rs else []), calls = []\<rparr>"

definition ex_results :: "facet list \<Rightarrow> results" where
  "ex_results fs = \<lparr>facets = (\<lambda>a. if a = ''rating'' then fs else []), nbHits = Num 12\<rparr>"


section \<open>Values and strings\<close>

lemma Math_round_cases:
  "Math_round x = NaN \<or> Math_round x = PosInfinity \<or> Math_round x = NegInfinity
   \<or> (\<exists>n. Math_round x = Num (of_int n))"
  by (cases x) auto

lemma zero_loop_apply: "zero_loop v t k = (if 0 \<le> k \<and> k \<le> v then Num 0 else t k)"
proof (induction v t rule: zero_loop.induct)
  case (1 v t)
  show ?case
  proof (cases "v \<ge> 0")
    case True
    have "zero_loop v t k = zero_loop (v - 1) (t(v := Num 0)) k"
      using True by (subst zero_loop.simps) simp
    also have "\<dots> = (if 0 \<le> k \<and> k \<le> v - 1 then Num 0 else (t(v := Num 0)) k)"
      using "1.IH" [OF True] .
    also have "\<dots> = (if 0 \<le> k \<and> k \<le> v then Num 0 else t k)"
      using True by auto
    finally show ?thesis .
  next
    case False
    then show ?thesis
      by (subst zero_loop.simps) auto
  qed
qed

lemma count_loop_apply:
  "count_loop v c t k = (if 1 \<le> k \<and> k \<le> v then js_add (t k) c else t k)"
proof (induction v c t rule: count_loop.induct)
  case (1 v c t)
  show ?case
  proof (cases "v \<ge> 1")
    case True
    have "count_loop v c t k = count_loop (v - 1) c (t(v := js_add (t v) c)) k"
      using True by (subst count_loop.simps) simp
    also have "\<dots> = (if 1 \<le> k \<and> k \<le> v - 1
                        then js_add ((t(v := js_add (t v) c)) k) c
                        else (t(v := js_add (t v) c)) k)"
      using "1.IH" [OF True] .
    also have "\<dots> = (if 1 \<le> k \<and> k \<le> v then js_add (t k) c else t k)"
      using True by auto
    finally show ?thesis .
  next
    case False
    then show ?thesis
      by (subst count_loop.simps) auto
  qed
qed

lemma stars_loop_eq: "stars_loop mx star i acc = acc @ map (\<lambda>i. i \<le> star) [i..mx]"
proof (induction mx star i acc rule: stars_loop.induct)
  case (1 mx star i acc)
  show ?case
  proof (cases "i \<le> mx")
    case True
    with "1.IH" show ?thesis
      by (subst stars_loop.simps) (simp add: upto_rec1 [of i mx])
  next
    case False
    then show ?thesis
      by (subst stars_loop.simps) simp
  qed
qed

lemma digit_inj: "d < 10 \<Longrightarrow> e < 10 \<Longrightarrow> digit d = digit e \<Longrightarrow> d = e"
  unfolding digit_def by (subst (asm) nth_eq_iff_index_eq) simp_all

lemma digit_not_minus: "d < 10 \<Longrightarrow> digit d \<noteq> CHR ''-''"
proof -
  assume "d < 10"
  then have "digit d \<in> set ''0123456789''"
    unfolding digit_def by (intro nth_mem) simp
  then show ?thesis by auto
qed

lemma string_of_nat_not_Nil [simp]: "string_of_nat n \<noteq> []" "[] \<noteq> string_of_nat n"
  by (subst string_of_nat.simps, simp)+

lemma hd_string_of_nat: "hd (string_of_nat n) \<noteq> CHR ''-''"
proof (induction n rule: string_of_nat.induct)
  case (1 n)
  show ?case
  proof (cases "n < 10")
    case True
    then show ?thesis
      by (subst string_of_nat.simps) (simp add: digit_not_minus)
  next
    case False
    with "1.IH" show ?thesis
      by (subst string_of_nat.simps) simp
  qed
qed

lemma string_of_nat_inj: "string_of_nat n = string_of_nat m \<Longrightarrow> n = m"
proof (induction n arbitrary: m rule: string_of_nat.induct)
  case (1 n)
  note eq = "1.prems"
  show ?case
  proof (cases "n < 10")
    case n: True
    show ?thesis
    proof (cases "m < 10")
      case True
      with n eq show ?thesis
        by (simp add: string_of_nat.simps [of n] string_of_nat.simps [of m] digit_inj)
    next
      case False
      with n eq show ?thesis
        by (simp add: string_of_nat.simps [of n] string_of_nat.simps [of m])
    qed
  next
    case n: False
    show ?thesis
    proof (cases "m < 10")
      case True
      with n eq show ?thesis
        by (simp add: string_of_nat.simps [of n] string_of_nat.simps [of m])
    next
      case False
      with n eq have "string_of_nat (n div 10) = string_of_nat (m div 10)"
        and d: "digit (n mod 10) = digit (m mod 10)"
        by (simp_all add: string_of_nat.simps [of n] string_of_nat.simps [of m])
      then have "n div 10 = m div 10"
        using "1.IH" n by simp
      moreover have "n mod 10 = m mod 10"
        using d by (intro digit_inj) simp_all
      ultimately show ?thesis
        by (metis div_mult_mod_eq)
    qed
  qed
qed

lemma String_inj: "String i = String j \<Longrightarrow> i = j"
proof -
  assume eq: "String i = String j"
  have neg: "CHR ''-'' # xs \<noteq> string_of_nat n" for xs n
    using hd_string_of_nat [of n] by (metis list.sel(1))
  show ?thesis
  proof (cases "i < 0")
    case i: True
    show ?thesis
    proof (cases "j < 0")
      case True
      with i eq have "nat (- i) = nat (- j)"
        by (simp add: String_def string_of_nat_inj)
      with i True show ?thesis by simp
    next
      case False
      with i eq neg show ?thesis by (simp add: String_def)
    qed
  next
    case i: False
    show ?thesis
    proof (cases "j < 0")
      case True
      with i eq neg [symmetric] show ?thesis by (simp add: String_def)
    next
      case False
      with i eq have "nat i = nat j"
        by (simp add: String_def string_of_nat_inj)
      with i False show ?thesis by simp
    qed
  qed
qed

section \<open>Adding 1 to a double\<close>

lemma ulp_of_small: "n < 2 ^ 53 \<Longrightarrow> ulp_of n = 1"
  by (subst ulp_of.simps) simp

lemma ulp_of_next:
  assumes "2 ^ 53 \<le> n" and "n < 2 ^ 54"
  shows "ulp_of n = 2"
proof -
  have "ulp_of n = 2 * ulp_of (n div 2)"
    using assms(1) by (subst ulp_of.simps) simp
  moreover have "n div 2 < 2 ^ 53"
    using assms(2) by (intro less_mult_imp_div_less) simp
  ultimately show ?thesis
    by (simp add: ulp_of_small)
qed

lemma round_even_of_int [simp]: "round_even (of_int m) = m"
  by (simp add: round_even_def)


lemma to_double_small: "\<bar>x\<bar> < 2 ^ 52 \<Longrightarrow> to_double x = x"
  by (simp add: to_double_def)

lemma to_double_big:
  assumes "2 ^ 52 \<le> \<bar>k\<bar>"
  shows "to_double (of_int k) =
           of_nat (ulp_of (nat \<bar>k\<bar>)) * of_int (round_even (of_int k / of_nat (ulp_of (nat \<bar>k\<bar>))))"
proof -
  have "rat_of_int (2 ^ 52) \<le> rat_of_int \<bar>k\<bar>"
    using assms by (simp only: of_int_le_iff)
  then have big: "\<not> \<bar>rat_of_int k\<bar> < 2 ^ 52"
    by simp
  have fl: "nat \<lfloor>\<bar>rat_of_int k\<bar>\<rfloor> = nat \<bar>k\<bar>"
    by (simp flip: of_int_abs)
  show ?thesis
    unfolding to_double_def Let_def if_not_P [OF big] fl ..
qed

lemma to_double_int:
  assumes "\<bar>n\<bar> \<le> 2 ^ 53"
  shows "to_double (of_int n) = of_int n"
proof (cases "\<bar>n\<bar> < 2 ^ 52")
  case True
  then have "rat_of_int \<bar>n\<bar> < rat_of_int (2 ^ 52)"
    by (simp only: of_int_less_iff)
  then have "\<bar>rat_of_int n\<bar> < 2 ^ 52"
    by simp
  then show ?thesis
    by (rule to_double_small)
next
  case False
  then have big: "2 ^ 52 \<le> \<bar>n\<bar>"
    by simp
  show ?thesis
  proof (cases "\<bar>n\<bar> < 2 ^ 53")
    case True
    then have "ulp_of (nat \<bar>n\<bar>) = 1"
      by (intro ulp_of_small) (simp add: nat_less_iff)
    then show ?thesis
      by (simp add: to_double_big [OF big])
  next
    case top: False
    with assms have n: "\<bar>n\<bar> = 2 ^ 53"
      by simp
    then have u: "ulp_of (nat \<bar>n\<bar>) = 2"
      by (intro ulp_of_next) simp_all
    from n have "n = 2 * 2 ^ 52 \<or> n = 2 * (- (2 ^ 52))"
      by (simp add: abs_if split: if_splits)
    then obtain m where m: "n = 2 * m"
      by blast
    have "rat_of_int n / 2 = rat_of_int m"
      by (simp add: m)
    then show ?thesis
      unfolding to_double_big [OF big] u by (simp add: m)
  qed
qed


lemma safe_step:
  assumes "safe r mx" and "r \<le> of_int mx"
  shows "to_double (r + 1) = r + 1" and "safe (r + 1) mx"
proof -
  from assms(1) consider (frac) "- (2 ^ 52) \<le> r" "mx < 2 ^ 52"
    | (int) "of_int \<lfloor>r\<rfloor> = r" "- (2 ^ 53) \<le> r" "mx < 2 ^ 53"
    by (auto simp add: safe_def)
  then show "to_double (r + 1) = r + 1"
  proof cases
    case frac
    have "rat_of_int mx \<le> 2 ^ 52 - 1"
    proof -
      have "mx \<le> 2 ^ 52 - 1" using frac(2) by simp
      then have "rat_of_int mx \<le> rat_of_int (2 ^ 52 - 1)" by (simp only: of_int_le_iff)
      then show ?thesis by simp
    qed
    with assms(2) have up: "r + 1 \<le> 2 ^ 52"
      by simp
    show ?thesis
    proof (cases "r + 1 = 2 ^ 52")
      case True
      have "to_double (rat_of_int (2 ^ 52)) = rat_of_int (2 ^ 52)"
        by (rule to_double_int) simp
      with True show ?thesis by simp
    next
      case False
      with up frac(1) have "\<bar>r + 1\<bar> < 2 ^ 52"
        by (simp add: abs_less_iff)
      then show ?thesis by (rule to_double_small)
    qed
  next
    case int
    define n where "n = \<lfloor>r\<rfloor>"
    have r: "r = of_int n"
      unfolding n_def using int(1) by (rule sym)
    have "- (2 ^ 53) \<le> n"
    proof -
      have "rat_of_int (- (2 ^ 53)) \<le> rat_of_int n"
        using int(2) r by simp
      then show ?thesis by (simp only: of_int_le_iff)
    qed
    moreover have "n \<le> mx"
      using assms(2) r by simp
    ultimately have "\<bar>n + 1\<bar> \<le> 2 ^ 53"
      using int(3) by (simp add: abs_le_iff)
    then have "to_double (rat_of_int (n + 1)) = rat_of_int (n + 1)"
      by (rule to_double_int)
    then show ?thesis
      by (simp add: r)
  qed
  show "safe (r + 1) mx"
    using assms(1) by (auto simp add: safe_def)
qed

lemma refine_loop_exit:
  "\<not> js_le val (Num (of_int mx)) \<Longrightarrow> refine_loop a mx val h = Some h"
  by (subst refine_loop.simps) simp


section \<open>The loop of \<open>_toggleRefinement\<close>\<close>

lemma upward_int: "upward (of_int n) mx = map (\<lambda>k. Num (of_int k)) [n..mx]"
proof (induction n mx rule: upto.induct)
  case (1 n mx)
  show ?case
  proof (cases "n \<le> mx")
    case True
    have "upward (of_int n) mx = Num (of_int n) # upward (of_int (n + 1)) mx"
      using True by (subst upward.simps) simp
    also have "\<dots> = Num (of_int n) # map (\<lambda>k. Num (of_int k)) [n + 1..mx]"
      using "1.IH" [OF True] by simp
    finally show ?thesis
      using True by (simp add: upto_rec1 [of n mx])
  next
    case False
    then show ?thesis
      by (subst upward.simps) simp
  qed
qed

lemma upward_above: "of_int mx < r \<Longrightarrow> upward r mx = []"
  by (subst upward.simps) simp

lemma upward_first: "r \<le> of_int mx \<Longrightarrow> upward r mx = Num r # upward (r + 1) mx"
  by (subst upward.simps) simp


text \<open>
  Where the additions are exact the loop returns, having added the numbers of
  \<open>upward\<close> in order.
\<close>

lemma refine_loop_safe:
  "safe r mx \<Longrightarrow>
   \<exists>h'. refine_loop a mx (Num r) h = Some h'
     \<and> calls h' = calls h @ map (AddDisjunctiveFacetRefinement a) (upward r mx)
     \<and> (\<forall>b. b \<noteq> a \<longrightarrow> refinements h' b = refinements h b)
     \<and> ((\<forall>x \<in> set (refinements h a). js_lt x (Num r)) \<longrightarrow>
            refinements h' a = refinements h a @ upward r mx)"
proof (induction r mx arbitrary: h rule: upward.induct)
  case (1 r mx)
  show ?case
  proof (cases "r \<le> of_int mx")
    case True
    let ?h = "addDisjunctiveFacetRefinement h a (Num r)"
    have inc: "js_inc (Num r) = Num (r + 1)" and safe': "safe (r + 1) mx"
      using safe_step [OF "1.prems" True] by simp_all
    from "1.IH" [OF True safe', of ?h] obtain h' where
      loop: "refine_loop a mx (Num (r + 1)) ?h = Some h'" and
      calls: "calls h' = calls ?h @ map (AddDisjunctiveFacetRefinement a) (upward (r + 1) mx)" and
      other: "\<forall>b. b \<noteq> a \<longrightarrow> refinements h' b = refinements ?h b" and
      mine: "(\<forall>x \<in> set (refinements ?h a). js_lt x (Num (r + 1))) \<longrightarrow>
               refinements h' a = refinements ?h a @ upward (r + 1) mx"
      by blast
    have 1: "refine_loop a mx (Num r) h = Some h'"
      using True loop inc by (subst refine_loop.simps) simp
    have 2: "calls h' = calls h @ map (AddDisjunctiveFacetRefinement a) (upward r mx)"
      using calls True by (simp add: upward_first addDisjunctiveFacetRefinement_def)
    have 3: "\<forall>b. b \<noteq> a \<longrightarrow> refinements h' b = refinements h b"
      using other by (simp add: addDisjunctiveFacetRefinement_def)
    have 4: "refinements h' a = refinements h a @ upward r mx"
      if below: "\<forall>x \<in> set (refinements h a). js_lt x (Num r)"
    proof -
      have "Num r \<notin> set (refinements h a)"
        using below by auto
      then have step: "refinements ?h a = refinements h a @ [Num r]"
        by (simp add: addDisjunctiveFacetRefinement_def)
      have "js_lt x (Num (r + 1))" if "x \<in> set (refinements ?h a)" for x
      proof -
        from that step below have "x = Num r \<or> js_lt x (Num r)"
          by auto
        then show ?thesis
          by (cases x) auto
      qed
      with mine have "refinements h' a = refinements ?h a @ upward (r + 1) mx"
        by blast
      then show ?thesis
        using True step by (simp add: upward_first)
    qed
    from 1 2 3 4 show ?thesis
      by blast
  next
    case False
    then show ?thesis
      by (simp add: refine_loop_exit upward_above)
  qed
qed

lemma getRefinedStar_eq:
  "getRefinedStar w h =
     (foldl refinedStar_step Undefined (refinements h (attributeName w)),
      h\<lparr>calls := calls h @ [GetRefinements (attributeName w)]\<rparr>)"
  by (simp add: getRefinedStar_def getRefinements_def)

text \<open>What \<open>_toggleRefinement\<close> does when its loop adds nothing, or is not run.\<close>

lemma toggleRefinement_no_addition:
  assumes "strict_eq (fst (getRefinedStar w h)) (Number v)
           \<or> \<not> js_le (Number v) (Num (of_int (maxv w)))"
  shows "toggleRefinement w h v =
           Some (h\<lparr>refinements := (refinements h)(attributeName w := []),
                    calls := calls h @ [GetRefinements (attributeName w),
                                        ClearRefinements (attributeName w), Search]\<rparr>)"
  using assms
  by (auto simp add: toggleRefinement_def getRefinedStar_eq clearRefinements_def search_def
      refine_loop_exit Let_def)

lemma toggleRefinement_safe:
  assumes "\<not> strict_eq (fst (getRefinedStar w h)) (Num r)" and "safe r (maxv w)"
  shows "\<exists>h'. toggleRefinement w h (Num r) = Some h'
     \<and> calls h' = calls h @ [GetRefinements (attributeName w), ClearRefinements (attributeName w)]
                  @ map (AddDisjunctiveFacetRefinement (attributeName w)) (upward r (maxv w))
                  @ [Search]
     \<and> refinements h' (attributeName w) = upward r (maxv w)
     \<and> (\<forall>b. b \<noteq> attributeName w \<longrightarrow> refinements h' b = refinements h b)"
proof -
  let ?a = "attributeName w"
  let ?h2 = "clearRefinements (snd (getRefinedStar w h)) ?a"
  from refine_loop_safe [OF assms(2), of ?a ?h2] obtain h3 where
    loop: "refine_loop ?a (maxv w) (Num r) ?h2 = Some h3" and
    calls: "calls h3 = calls ?h2 @ map (AddDisjunctiveFacetRefinement ?a) (upward r (maxv w))" and
    other: "\<forall>b. b \<noteq> ?a \<longrightarrow> refinements h3 b = refinements ?h2 b" and
    mine: "(\<forall>x \<in> set (refinements ?h2 ?a). js_lt x (Num r)) \<longrightarrow>
             refinements h3 ?a = refinements ?h2 ?a @ upward r (maxv w)"
    by blast
  have "toggleRefinement w h (Num r) = Some (search h3)"
    using assms(1) loop
    by (simp add: toggleRefinement_def getRefinedStar_eq Let_def)
  moreover have "calls (search h3) = calls h @ [GetRefinements ?a, ClearRefinements ?a]
                  @ map (AddDisjunctiveFacetRefinement ?a) (upward r (maxv w)) @ [Search]"
    using calls by (simp add: search_def clearRefinements_def getRefinedStar_eq)
  moreover have "refinements (search h3) ?a = upward r (maxv w)"
    using mine by (simp add: search_def clearRefinements_def getRefinedStar_eq)
  moreover have "\<forall>b. b \<noteq> ?a \<longrightarrow> refinements (search h3) b = refinements h b"
    using other by (simp add: search_def clearRefinements_def getRefinedStar_eq)
  ultimately show ?thesis
    by blast
qed





lemma toggleRefinement_number:
  assumes "safe r (maxv w) \<or> of_int (maxv w) < r"
  shows "\<exists>h'. toggleRefinement w h (Num r) = Some h'
     \<and> calls h' = calls h @ [GetRefinements (attributeName w), ClearRefinements (attributeName w)]
         @ (if strict_eq (fst (getRefinedStar w h)) (Num r) then []
            else map (AddDisjunctiveFacetRefinement (attributeName w)) (upward r (maxv w)))
         @ [Search]
     \<and> refinements h' (attributeName w) =
         (if strict_eq (fst (getRefinedStar w h)) (Num r) then [] else upward r (maxv w))"
proof (cases "strict_eq (fst (getRefinedStar w h)) (Num r)")
  case True
  then show ?thesis
    by (simp add: toggleRefinement_no_addition)
next
  case eq: False
  show ?thesis
  proof (cases "of_int (maxv w) < r")
    case True
    then show ?thesis
      using eq by (simp add: toggleRefinement_no_addition upward_above)
  next
    case False
    with assms have "safe r (maxv w)"
      by simp
    from toggleRefinement_safe [OF _ this, of h] eq show ?thesis
      by auto
  qed
qed


section \<open>The loops of \<open>render\<close> and of \<open>_getRefinedStar\<close>\<close>

lemma rev_upto_rec: "1 \<le> star \<Longrightarrow> rev [1..star] = star # rev [1..star - 1]"
  by (simp add: upto_rec2 [of 1 star])

lemma bucket_loop_eq:
  "bucket_loop mx t rs star acc =
     acc @ map (bucket mx t rs) (filter (\<lambda>s. \<not> skipped t rs s) (rev [1..star]))"
proof (induction mx t rs star acc rule: bucket_loop.induct)
  case (1 mx t rs star acc)
  show ?case
  proof (cases "star \<ge> 1")
    case ge: True
    show ?thesis
    proof (cases "skipped t rs star")
      case True
      then have "bucket_loop mx t rs star acc = bucket_loop mx t rs (star - 1) acc"
        using ge by (subst bucket_loop.simps) (simp add: skipped_def)
      also have "\<dots> = acc @ map (bucket mx t rs)
                          (filter (\<lambda>s. \<not> skipped t rs s) (rev [1..star - 1]))"
        using "1.IH"(1) [OF ge refl] True by (simp add: skipped_def)
      finally show ?thesis
        using True ge by (simp add: rev_upto_rec)
    next
      case False
      then have "bucket_loop mx t rs star acc =
                 bucket_loop mx t rs (star - 1) (acc @ [bucket mx t rs star])"
        using ge
        by (subst bucket_loop.simps) (auto simp add: skipped_def bucket_def stars_loop_eq)
      also have "\<dots> = (acc @ [bucket mx t rs star]) @ map (bucket mx t rs)
                          (filter (\<lambda>s. \<not> skipped t rs s) (rev [1..star - 1]))"
        using "1.IH"(2) [OF ge refl] False
        by (simp add: skipped_def bucket_def stars_loop_eq)
      finally show ?thesis
        using False ge by (simp add: rev_upto_rec)
    qed
  next
    case False
    then show ?thesis
      by (subst bucket_loop.simps) simp
  qed
qed

lemma render_eq:
  "render w h res =
     (h\<lparr>calls := calls h @ [GetRefinements (attributeName w)]\<rparr>,
      \<lparr>items = map (bucket (maxv w) (allValues_of w res) (fst (getRefinedStar w h)))
                 (filter (\<lambda>s. \<not> skipped (allValues_of w res) (fst (getRefinedStar w h)) s)
                    (rev [1..maxv w - 1])),
        hasNoResults = (nbHits res = Num 0),
        refine = toggleRefinement w,
        widgetParams = params w\<rparr>,
      False)"
proof -
  have "strict_eq x (Num 0) \<longleftrightarrow> x = Num 0" for x
    by (cases x) auto
  then show ?thesis
    by (simp add: render_def getRefinedStar_eq bucket_loop_eq Let_def)
qed

lemma facet_callback_in:
  assumes "Math_round (facet_name f) = Num (of_int r)" and "1 \<le> r" and "r \<le> mx"
  shows "facet_callback mx t f = count_loop r (facet_count f) t"
  using assms by (simp add: facet_callback_def js_gt_def Let_def)

lemma count_loop_none: "v < 1 \<Longrightarrow> count_loop v c t = t"
  by (subst count_loop.simps) simp

lemma facet_callback_out:
  assumes "\<not> (\<exists>r. 1 \<le> r \<and> r \<le> mx \<and> Math_round (facet_name f) = Num (of_int r))"
  shows "facet_callback mx t f = t"
proof -
  consider "Math_round (facet_name f) = NaN" | "Math_round (facet_name f) = PosInfinity"
    | "Math_round (facet_name f) = NegInfinity"
    | n where "Math_round (facet_name f) = Num (of_int n)"
    using Math_round_cases by blast
  then show ?thesis
  proof cases
    case (4 n)
    with assms have "n < 1 \<or> mx < n"
      by force
    with 4 show ?thesis
      by (auto simp add: facet_callback_def js_gt_def Let_def count_loop_none)
  qed (simp_all add: facet_callback_def js_gt_def Let_def)
qed



text \<open>
  As long as no refinement is \<open>0\<close>, \<open>refinedStar\<close> is the least of them.
\<close>

lemma refinedStar_min_aux:
  "m \<noteq> 0 \<Longrightarrow> \<forall>r \<in> set rs. r \<noteq> 0 \<Longrightarrow>
   foldl refinedStar_step (Num m) (map Num rs) = Num (Min (set (m # rs)))"
proof (induction rs arbitrary: m)
  case Nil
  show ?case by simp
next
  case (Cons r rs)
  have step: "refinedStar_step (Num m) (Num r) = Num (min m r)"
    using Cons.prems(1) by (auto simp add: refinedStar_step_def min_def)
  have "min m r \<noteq> 0"
    using Cons.prems by (auto simp add: min_def)
  then have "foldl refinedStar_step (Num (min m r)) (map Num rs) = Num (Min (set (min m r # rs)))"
    using Cons.IH Cons.prems(2) by simp
  moreover have "Min (set (min m r # rs)) = Min (set (m # r # rs))"
    by (cases "rs = []") (simp_all add: min.assoc)
  ultimately show ?case
    using step by simp
qed

lemma refinedStar_min:
  "\<forall>r \<in> set (r0 # rs). r \<noteq> 0 \<Longrightarrow>
   foldl refinedStar_step Undefined (map Num (r0 # rs)) = Num (Min (set (r0 # rs)))"
  using refinedStar_min_aux [of r0 rs] by (simp add: refinedStar_step_def)

text \<open>
  The table of \<open>render\<close> is cumulative: at an index \<open>v\<close> from \<open>1\<close> to \<open>max\<close> it holds
  the sum of the counts of the facet values counted at \<open>v\<close>, at \<open>0\<close> it holds \<open>0\<close>, and
  no other index is written.
\<close>

lemma facet_callback_apply:
  assumes "1 \<le> v"
  shows "facet_callback mx t f v =
           (if counted mx v f then js_add (t v) (facet_count f) else t v)"
proof (cases "\<exists>r. 1 \<le> r \<and> r \<le> mx \<and> Math_round (facet_name f) = Num (of_int r)")
  case True
  then obtain r where "1 \<le> r" "r \<le> mx" "Math_round (facet_name f) = Num (of_int r)"
    by blast
  with assms show ?thesis
    by (simp add: facet_callback_in count_loop_apply counted_def)
next
  case False
  then have same: "facet_callback mx t f = t"
    by (rule facet_callback_out)
  have "\<not> counted mx v f"
  proof
    assume c: "counted mx v f"
    then obtain q where q: "Math_round (facet_name f) = Num q" "of_int v \<le> q" "q \<le> of_int mx"
      by (auto simp add: counted_def split: jsval.splits)
    with Math_round_cases [of "facet_name f"] obtain n where n: "q = of_int n"
      by auto
    with q assms have "1 \<le> n \<and> n \<le> mx"
      by simp
    with q(1) n False show False
      by blast
  qed
  with same show ?thesis
    by simp
qed

lemma foldl_facet_callback_apply:
  "1 \<le> v \<Longrightarrow>
   foldl (facet_callback mx) t fs v =
     foldl js_add (t v) (map facet_count (filter (counted mx v) fs))"
  by (induction fs arbitrary: t) (simp_all add: facet_callback_apply)

lemma foldl_facet_callback_low:
  "v < 1 \<Longrightarrow> foldl (facet_callback mx) t fs v = t v"
proof (induction fs arbitrary: t)
  case Nil
  show ?case by simp
next
  case (Cons f fs)
  have "facet_callback mx t f v = t v"
  proof (cases "\<exists>r. 1 \<le> r \<and> r \<le> mx \<and> Math_round (facet_name f) = Num (of_int r)")
    case True
    then obtain r where "1 \<le> r" "r \<le> mx" "Math_round (facet_name f) = Num (of_int r)"
      by blast
    with Cons.prems show ?thesis
      by (simp add: facet_callback_in count_loop_apply)
  next
    case False
    then show ?thesis
      by (simp add: facet_callback_out)
  qed
  with Cons show ?case by simp
qed

lemma allValues_of_cumulative:
  "allValues_of w res v =
     (if 1 \<le> v \<and> v \<le> maxv w
      then foldl js_add (Num 0)
             (map facet_count (filter (counted (maxv w) v) (facets res (attributeName w))))
      else if v = 0 \<and> 0 \<le> maxv w then Num 0
      else Undefined)"
proof (cases "1 \<le> v")
  case True
  have "\<not> counted (maxv w) v f" if "maxv w < v" for f
    using that by (auto simp add: counted_def split: jsval.splits)
  then have "filter (counted (maxv w) v) fs = []" if "maxv w < v" for fs
    using that by (induction fs) simp_all
  with True show ?thesis
    by (simp add: allValues_of_def getFacetValues_def foldl_facet_callback_apply zero_loop_apply)
next
  case False
  then show ?thesis
    by (simp add: allValues_of_def getFacetValues_def foldl_facet_callback_low zero_loop_apply)
qed

text \<open>
  What \<open>render\<close> emits: a threshold from \<open>max - 1\<close> down to \<open>1\<close> is emitted exactly when
  it is not \<open>skipped\<close>.
\<close>

lemma items_render:
  "items (fst (snd (render w h res))) =
     map (bucket (maxv w) (allValues_of w res) (fst (getRefinedStar w h)))
       (filter (\<lambda>s. \<not> skipped (allValues_of w res) (fst (getRefinedStar w h)) s)
          (rev [1..maxv w - 1]))"
  by (simp add: render_eq)

lemma sorted_desc_rev_upto: "sorted_wrt (>) (rev [i..j])"
  by (simp add: sorted_wrt_rev)

lemma item_values_render:
  "map item_value (items (fst (snd (render w h res)))) =
     map String (filter (\<lambda>s. \<not> skipped (allValues_of w res) (fst (getRefinedStar w h)) s)
                   (rev [1..maxv w - 1]))"
  by (simp add: items_render bucket_def comp_def)

lemma bucket_emitted_iff:
  "String star \<in> set (map item_value (items (fst (snd (render w h res))))) \<longleftrightarrow>
     1 \<le> star \<and> star \<le> maxv w - 1 \<and>
     \<not> skipped (allValues_of w res) (fst (getRefinedStar w h)) star"
proof -
  have inj: "String star \<in> String ` A \<longleftrightarrow> star \<in> A" for A
    using String_inj by blast
  show ?thesis
    unfolding item_values_render set_map inj by auto
qed

lemma allValues_of_snoc:
  "allValues_of w (res\<lparr>facets := (facets res)(attributeName w := xs @ [f])\<rparr>) =
   facet_callback (maxv w)
     (allValues_of w (res\<lparr>facets := (facets res)(attributeName w := xs)\<rparr>)) f"
  by (simp add: allValues_of_def getFacetValues_def)

lemma allValues_of_drop:
  assumes "\<not> (\<exists>r. 1 \<le> r \<and> r \<le> maxv w \<and> Math_round (facet_name f) = Num (of_int r))"
  shows "allValues_of w (res\<lparr>facets := (facets res)(attributeName w := xs @ f # ys)\<rparr>) =
         allValues_of w (res\<lparr>facets := (facets res)(attributeName w := xs @ ys)\<rparr>)"
  using assms by (simp add: allValues_of_def getFacetValues_def facet_callback_out)

lemma counted_iff:
  "counted mx v f \<longleftrightarrow>
     (\<exists>r. Math_round (facet_name f) = Num (of_int r) \<and> v \<le> r \<and> r \<le> mx)"
proof
  assume "counted mx v f"
  then obtain q where q: "Math_round (facet_name f) = Num q" "of_int v \<le> q" "q \<le> of_int mx"
    by (auto simp add: counted_def split: jsval.splits)
  with Math_round_cases [of "facet_name f"] obtain n where "q = of_int n"
    by auto
  with q show "\<exists>r. Math_round (facet_name f) = Num (of_int r) \<and> v \<le> r \<and> r \<le> mx"
    by auto
next
  assume "\<exists>r. Math_round (facet_name f) = Num (of_int r) \<and> v \<le> r \<and> r \<le> mx"
  then show "counted mx v f"
    by (auto simp add: counted_def)
qed

lemma item_counts_render:
  "map item_count (items (fst (snd (render w h res)))) =
     map (allValues_of w res)
       (filter (\<lambda>s. \<not> skipped (allValues_of w res) (fst (getRefinedStar w h)) s)
          (rev [1..maxv w - 1]))"
  by (simp add: items_render bucket_def comp_def)

lemma not_rounded_into:
  assumes "js_le (Math_round x) (Num 0) \<or> js_gt (Math_round x) (Num (of_int mx))"
  shows "\<not> (\<exists>r. 1 \<le> r \<and> r \<le> mx \<and> Math_round x = Num (of_int r))"
  using assms by (auto simp add: js_gt_def)

section \<open>The widget, the helper and the results of the examples\<close>

lemma ex_widget_simps [simp]:
  "attributeName ex_widget = ''rating''" "maxv ex_widget = 5"
  by (simp_all add: ex_widget_def)
lemma ex_helper_simps [simp]:
  "refinements (ex_helper rs) ''rating'' = rs" "calls (ex_helper rs) = []"
  by (simp_all add: ex_helper_def)
lemma getRefinedStar_ex [simp]:
  "fst (getRefinedStar ex_widget (ex_helper rs)) = foldl refinedStar_step Undefined rs"
  by (simp add: getRefinedStar_eq)

section \<open>The claims\<close>

text \<open>
  Claim C1.  In \<open>render\<close> with \<open>max = M\<close>, a facet value whose name rounds to an
  integer \<open>r\<close> with \<open>1 \<le> r \<le> M\<close> has its count added to the table at every index
  from \<open>r\<close> down to \<open>1\<close> and at no other index.  One that rounds to a value \<open>\<le> 0\<close> or
  \<open>> M\<close> leaves the table as it is, and what \<open>render\<close> returns is the same with the
  facet value and without it.  The table that \<open>render\<close> builds holds at an index
  \<open>v\<close> from \<open>1\<close> to \<open>M\<close> the sum, from \<open>0\<close>, of the counts of the facet values of the
  results that round to an integer from \<open>v\<close> to \<open>M\<close>; at \<open>0\<close> it holds \<open>0\<close> and it has no
  other index.  The counts of the items that \<open>render\<close> emits are read from this
  table at the stars emitted.
\<close>

theorem facet_counted:
  "(Math_round (facet_name f) = Num (of_int r) \<and> 1 \<le> r \<and> r \<le> maxv w \<longrightarrow>
      facet_callback (maxv w) t f v =
        (if 1 \<le> v \<and> v \<le> r then js_add (t v) (facet_count f) else t v))
   \<and> (js_le (Math_round (facet_name f)) (Num 0)
        \<or> js_gt (Math_round (facet_name f)) (Num (of_int (maxv w))) \<longrightarrow>
      facet_callback (maxv w) t f = t
      \<and> render w h (res\<lparr>facets := (facets res)(attributeName w := xs @ f # ys)\<rparr>) =
        render w h (res\<lparr>facets := (facets res)(attributeName w := xs @ ys)\<rparr>))
   \<and> allValues_of w res v =
       (if 1 \<le> v \<and> v \<le> maxv w
        then foldl js_add (Num 0)
               (map facet_count
                  (filter (counted (maxv w) v) (getFacetValues res (attributeName w))))
        else if v = 0 \<and> 0 \<le> maxv w then Num 0
        else Undefined)
   \<and> (counted (maxv w) v f \<longleftrightarrow>
        (\<exists>n. Math_round (facet_name f) = Num (of_int n) \<and> v \<le> n \<and> n \<le> maxv w))
   \<and> map item_count (items (fst (snd (render w h res)))) =
       map (allValues_of w res)
         (filter (\<lambda>s. \<not> skipped (allValues_of w res) (fst (getRefinedStar w h)) s)
            (rev [1..maxv w - 1]))"
proof (intro conjI impI)
  assume "Math_round (facet_name f) = Num (of_int r) \<and> 1 \<le> r \<and> r \<le> maxv w"
  then show "facet_callback (maxv w) t f v =
        (if 1 \<le> v \<and> v \<le> r then js_add (t v) (facet_count f) else t v)"
    by (simp add: facet_callback_in count_loop_apply)
next
  assume "js_le (Math_round (facet_name f)) (Num 0)
        \<or> js_gt (Math_round (facet_name f)) (Num (of_int (maxv w)))"
  then have out: "\<not> (\<exists>r. 1 \<le> r \<and> r \<le> maxv w \<and> Math_round (facet_name f) = Num (of_int r))"
    by (rule not_rounded_into)
  then show "facet_callback (maxv w) t f = t"
    by (rule facet_callback_out)
  show "render w h (res\<lparr>facets := (facets res)(attributeName w := xs @ f # ys)\<rparr>) =
        render w h (res\<lparr>facets := (facets res)(attributeName w := xs @ ys)\<rparr>)"
    by (simp add: render_eq allValues_of_drop [OF out])
next
  show "allValues_of w res v =
       (if 1 \<le> v \<and> v \<le> maxv w
        then foldl js_add (Num 0)
               (map facet_count
                  (filter (counted (maxv w) v) (getFacetValues res (attributeName w))))
        else if v = 0 \<and> 0 \<le> maxv w then Num 0
        else Undefined)"
    by (simp add: allValues_of_cumulative getFacetValues_def)
next
  show "counted (maxv w) v f \<longleftrightarrow>
        (\<exists>n. Math_round (facet_name f) = Num (of_int n) \<and> v \<le> n \<and> n \<le> maxv w)"
    by (rule counted_iff)
next
  show "map item_count (items (fst (snd (render w h res)))) =
       map (allValues_of w res)
         (filter (\<lambda>s. \<not> skipped (allValues_of w res) (fst (getRefinedStar w h)) s)
            (rev [1..maxv w - 1]))"
    by (rule item_counts_render)
qed

text \<open>
  With \<open>max = 5\<close>, no refinement and the facet values 3 (count 10), 5 (count 2),
  0 (count 7) and 6 (count 1): the table is 12, 12, 12, 2, 2 at the indices 1 to 5,
  and \<open>render\<close> emits the counts 2, 12, 12, 12 for the stars 4 to 1; the facet values
  0 and 6 reach no index.  The name \<open>3.5\<close> rounds to \<open>4\<close>: its count reaches index
  \<open>3\<close> and not index \<open>5\<close>.
\<close>

theorem facet_counted_witness:
  "map item_count (items (fst (snd (render ex_widget (ex_helper [])
      (ex_results [\<lparr>facet_name = Num 3, facet_count = Num 10\<rparr>,
                   \<lparr>facet_name = Num 5, facet_count = Num 2\<rparr>,
                   \<lparr>facet_name = Num 0, facet_count = Num 7\<rparr>,
                   \<lparr>facet_name = Num 6, facet_count = Num 1\<rparr>])))))
     = [Num 2, Num 12, Num 12, Num 12]
   \<and> map (allValues_of ex_widget
        (ex_results [\<lparr>facet_name = Num 3, facet_count = Num 10\<rparr>,
                     \<lparr>facet_name = Num 5, facet_count = Num 2\<rparr>,
                     \<lparr>facet_name = Num 0, facet_count = Num 7\<rparr>,
                     \<lparr>facet_name = Num 6, facet_count = Num 1\<rparr>])) [0, 1, 2, 3, 4, 5, 6]
     = [Num 0, Num 12, Num 12, Num 12, Num 2, Num 2, Undefined]
   \<and> facet_callback 5 (\<lambda>v. Num 0) \<lparr>facet_name = Num (7 / 2), facet_count = Num 10\<rparr> 3 = Num 10
   \<and> facet_callback 5 (\<lambda>v. Num 0) \<lparr>facet_name = Num (7 / 2), facet_count = Num 10\<rparr> 5 = Num 0
   \<and> facet_callback 5 (\<lambda>v. Num 0) \<lparr>facet_name = Num 6, facet_count = Num 10\<rparr> = (\<lambda>v. Num 0)
   \<and> facet_callback 5 (\<lambda>v. Num 0) \<lparr>facet_name = Num 0, facet_count = Num 10\<rparr> = (\<lambda>v. Num 0)"
proof -
  let ?res = "ex_results [\<lparr>facet_name = Num 3, facet_count = Num 10\<rparr>,
                   \<lparr>facet_name = Num 5, facet_count = Num 2\<rparr>,
                   \<lparr>facet_name = Num 0, facet_count = Num 7\<rparr>,
                   \<lparr>facet_name = Num 6, facet_count = Num 1\<rparr>]"
  have table: "map (allValues_of ex_widget ?res) [0, 1, 2, 3, 4, 5, 6]
     = [Num 0, Num 12, Num 12, Num 12, Num 2, Num 2, Undefined]"
    by code_simp
  have star: "fst (getRefinedStar ex_widget (ex_helper [])) = Undefined"
    by (simp add: getRefinedStar_eq ex_helper_def)
  have "rev [1..maxv ex_widget - 1] = [4, 3, 2, 1]"
    by (simp add: ex_widget_def upto_rec1)
  then have counts: "map item_count (items (fst (snd (render ex_widget (ex_helper []) ?res))))
     = [Num 2, Num 12, Num 12, Num 12]"
    using facet_counted [of _ _ ex_widget _ _ "ex_helper []" ?res] table
    by (simp add: star skipped_def)
  have r4: "Math_round (Num (7 / 2)) = Num (of_int 4)"
    by simp
  have r6: "Math_round (Num 6) = Num (of_int 6)"
    by (simp add: floor_eq_iff)
  have r0: "Math_round (Num 0) = Num (of_int 0)"
    by (simp add: floor_eq_iff)
  have m: "maxv ex_widget = 5"
    by (simp add: ex_widget_def)
  have a: "facet_callback 5 (\<lambda>v. Num 0) \<lparr>facet_name = Num (7 / 2), facet_count = Num 10\<rparr> 3 = Num 10"
    using r4 facet_counted [of "\<lparr>facet_name = Num (7 / 2), facet_count = Num 10\<rparr>" 4 ex_widget
        "\<lambda>v. Num 0" 3]
    by (simp add: m)
  have b: "facet_callback 5 (\<lambda>v. Num 0) \<lparr>facet_name = Num (7 / 2), facet_count = Num 10\<rparr> 5 = Num 0"
    using r4 facet_counted [of "\<lparr>facet_name = Num (7 / 2), facet_count = Num 10\<rparr>" 4 ex_widget
        "\<lambda>v. Num 0" 5]
    by (simp add: m)
  have c: "facet_callback 5 (\<lambda>v. Num 0) \<lparr>facet_name = Num 6, facet_count = Num 10\<rparr> = (\<lambda>v. Num 0)"
    using facet_counted [of "\<lparr>facet_name = Num 6, facet_count = Num 10\<rparr>" _ ex_widget
        "\<lambda>v. Num 0"]
    by (simp add: m r6 js_gt_def del: Math_round.simps)
  have d: "facet_callback 5 (\<lambda>v. Num 0) \<lparr>facet_name = Num 0, facet_count = Num 10\<rparr> = (\<lambda>v. Num 0)"
    using facet_counted [of "\<lparr>facet_name = Num 0, facet_count = Num 10\<rparr>" _ ex_widget
        "\<lambda>v. Num 0"]
    by (simp add: m r0 js_gt_def del: Math_round.simps)
  from counts table a b c d show ?thesis
    by simp
qed




text \<open>
  Claim C3.  A threshold is left out exactly when \<open>skipped\<close> holds of it (lemma
  \<open>bucket_emitted_iff\<close>), and \<open>skipped\<close> asks for a truthy \<open>refinedStar\<close>, not for a
  defined one.  With \<open>max = 5\<close>, the one refinement \<open>0\<close> on the attribute and no facet
  value, \<open>refinedStar\<close> is \<open>0\<close>: a refinement is active, every threshold differs from it
  and every count is \<open>0\<close>, yet the four buckets are all emitted.  With the one
  refinement \<open>2\<close> the same results give the bucket \<open>2\<close> alone.
\<close>

theorem zero_refinement_not_hidden:
  "refinements (ex_helper [Num 0]) (attributeName ex_widget) = [Num 0]
   \<and> fst (getRefinedStar ex_widget (ex_helper [Num 0])) = Num 0
   \<and> map item_value (items (fst (snd (render ex_widget (ex_helper [Num 0]) (ex_results [])))))
       = [''4'', ''3'', ''2'', ''1'']
   \<and> map item_count (items (fst (snd (render ex_widget (ex_helper [Num 0]) (ex_results [])))))
       = [Num 0, Num 0, Num 0, Num 0]
   \<and> map item_value (items (fst (snd (render ex_widget (ex_helper [Num 2]) (ex_results [])))))
       = [''2'']"
  by code_simp

text \<open>
  Claim C4.  With \<open>max = M\<close>, \<open>render\<close> emits at most \<open>M - 1\<close> items (none when
  \<open>M \<le> 1\<close>).  Their values are \<open>String(star)\<close> for stars in strictly descending
  order, each between \<open>1\<close> and \<open>M - 1\<close>, so the values are distinct and \<open>String(M)\<close>
  is not among them.  The \<open>stars\<close> of an item has length \<open>M\<close>, its entry \<open>i\<close> (from
  \<open>1\<close>) being \<open>i \<le> star\<close>.
\<close>

theorem render_items_shape:
  "length (items (fst (snd (render w h res)))) \<le> nat (maxv w - 1)
   \<and> (1 \<le> maxv w \<longrightarrow>
        int (length (items (fst (snd (render w h res))))) \<le> maxv w - 1)
   \<and> (\<exists>ss. sorted_wrt (>) ss \<and> set ss \<subseteq> {1..maxv w - 1}
         \<and> map item_value (items (fst (snd (render w h res)))) = map String ss
         \<and> map item_stars (items (fst (snd (render w h res)))) =
             map (\<lambda>star. map (\<lambda>i. i \<le> star) [1..maxv w]) ss)
   \<and> distinct (map item_value (items (fst (snd (render w h res)))))
   \<and> String (maxv w) \<notin> set (map item_value (items (fst (snd (render w h res)))))
   \<and> (\<forall>it \<in> set (items (fst (snd (render w h res)))).
         int (length (item_stars it)) = maxv w)"
proof -
  let ?t = "allValues_of w res" and ?rs = "fst (getRefinedStar w h)"
  let ?ss = "filter (\<lambda>s. \<not> skipped ?t ?rs s) (rev [1..maxv w - 1])"
  have its: "items (fst (snd (render w h res))) = map (bucket (maxv w) ?t ?rs) ?ss"
    by (rule items_render)
  have len: "length (items (fst (snd (render w h res)))) \<le> nat (maxv w - 1)"
  proof -
    have "length ?ss \<le> length (rev [1..maxv w - 1])"
      by (rule length_filter_le)
    then show ?thesis
      by (simp add: its)
  qed
  have sorted: "sorted_wrt (>) ?ss"
    by (intro sorted_wrt_filter sorted_desc_rev_upto)
  have range: "set ?ss \<subseteq> {1..maxv w - 1}"
    by auto
  have vals: "map item_value (items (fst (snd (render w h res)))) = map String ?ss"
    by (rule item_values_render)
  have stars: "map item_stars (items (fst (snd (render w h res)))) =
               map (\<lambda>star. map (\<lambda>i. i \<le> star) [1..maxv w]) ?ss"
    by (simp add: its bucket_def comp_def)
  have "distinct ?ss"
    by simp
  moreover have "inj_on String (set ?ss)"
    using String_inj by (auto intro: inj_onI)
  ultimately have dist: "distinct (map item_value (items (fst (snd (render w h res)))))"
    unfolding vals by (simp add: distinct_map)
  have top: "String (maxv w) \<notin> set (map item_value (items (fst (snd (render w h res)))))"
    unfolding bucket_emitted_iff by simp
  have lens: "\<forall>it \<in> set (items (fst (snd (render w h res)))).
         int (length (item_stars it)) = maxv w"
  proof
    fix it assume "it \<in> set (items (fst (snd (render w h res))))"
    then obtain s where "s \<in> set ?ss" and it: "it = bucket (maxv w) ?t ?rs s"
      unfolding its by auto
    then have "1 \<le> s" "s \<le> maxv w - 1"
      by auto
    then show "int (length (item_stars it)) = maxv w"
      by (simp add: it bucket_def)
  qed
  have len': "1 \<le> maxv w \<longrightarrow>
      int (length (items (fst (snd (render w h res))))) \<le> maxv w - 1"
    using len by auto
  from len len' sorted range vals stars dist top lens show ?thesis
    by blast
qed

text \<open>
  With \<open>max = 5\<close>, the refinement \<open>2\<close> and ten results of three stars, the buckets
  3, 2 and 1 are emitted, each with five stars.
\<close>

theorem render_items_shape_witness:
  "map item_value (items (fst (snd (render ex_widget (ex_helper [Num 2])
      (ex_results [\<lparr>facet_name = Num 3, facet_count = Num 10\<rparr>]))))) = [''3'', ''2'', ''1'']
   \<and> list_all (\<lambda>it. int (length (item_stars it)) = 5)
        (items (fst (snd (render ex_widget (ex_helper [Num 2])
           (ex_results [\<lparr>facet_name = Num 3, facet_count = Num 10\<rparr>])))))"
proof -
  have "map item_value (items (fst (snd (render ex_widget (ex_helper [Num 2])
      (ex_results [\<lparr>facet_name = Num 3, facet_count = Num 10\<rparr>]))))) = [''3'', ''2'', ''1'']"
    by code_simp
  moreover have "maxv ex_widget = 5"
    by (simp add: ex_widget_def)
  ultimately show ?thesis
    using render_items_shape [of ex_widget "ex_helper [Num 2]"
        "ex_results [\<lparr>facet_name = Num 3, facet_count = Num 10\<rparr>]"]
    by (simp add: list_all_iff)
qed

text \<open>
  Claim C5.  \<open>_getRefinedStar\<close> is the minimum of the refinements as long as none of
  them is \<open>0\<close> (lemma \<open>refinedStar_min\<close>); a \<open>refinedStar\<close> of \<open>0\<close> is falsy and the
  next refinement replaces it.  With \<open>max = 5\<close>, \<open>refine(0)\<close> on no refinement leaves
  the refinements 0, 1, 2, 3, 4, 5, of which \<open>_getRefinedStar\<close> returns \<open>1\<close>; of the
  refinements 0, 3 it returns \<open>3\<close>, and of 3, 0 it returns \<open>0\<close>.
\<close>

theorem refined_star_not_minimum:
  "(\<exists>h'. toggleRefinement ex_widget (ex_helper []) (Num 0) = Some h'
      \<and> refinements h' ''rating'' = [Num 0, Num 1, Num 2, Num 3, Num 4, Num 5]
      \<and> fst (getRefinedStar ex_widget h') = Num 1)
   \<and> fst (getRefinedStar ex_widget (ex_helper [Num 0, Num 3])) = Num 3
   \<and> fst (getRefinedStar ex_widget (ex_helper [Num 3, Num 0])) = Num 0"
proof -
  have "safe 0 (maxv ex_widget)"
    by (simp add: safe_def)
  moreover have "upward 0 5 = [Num 0, Num 1, Num 2, Num 3, Num 4, Num 5]"
    using upward_int [of 0 5] by (simp add: upto_rec1)
  ultimately obtain h' where
    t: "toggleRefinement ex_widget (ex_helper []) (Num 0) = Some h'" and
    refs: "refinements h' ''rating'' = [Num 0, Num 1, Num 2, Num 3, Num 4, Num 5]"
    using toggleRefinement_number [of 0 ex_widget "ex_helper []"]
    by auto
  from refs have "fst (getRefinedStar ex_widget h') = Num 1"
    by (simp add: getRefinedStar_eq refinedStar_step_def)
  with t refs have "\<exists>h'. toggleRefinement ex_widget (ex_helper []) (Num 0) = Some h'
      \<and> refinements h' ''rating'' = [Num 0, Num 1, Num 2, Num 3, Num 4, Num 5]
      \<and> fst (getRefinedStar ex_widget h') = Num 1"
    by blast
  moreover have "fst (getRefinedStar ex_widget (ex_helper [Num 0, Num 3])) = Num 3"
    by (simp add: refinedStar_step_def)
  moreover have "fst (getRefinedStar ex_widget (ex_helper [Num 3, Num 0])) = Num 0"
    by (simp add: refinedStar_step_def)
  ultimately show ?thesis
    by blast
qed




text \<open>
  Claim C7.  \<open>render\<close> calls the render function with \<open>hasNoResults\<close> true exactly
  when the number of hits of the results is \<open>0\<close>, and with \<open>isFirstRendering\<close> false.
\<close>

theorem render_hasNoResults:
  "hasNoResults (fst (snd (render w h res))) = (nbHits res = Num 0)
   \<and> snd (snd (render w h res)) = False"
  by (simp add: render_eq)

text \<open>
  Claim C8.  Building the widget raises the usage error exactly when the render
  function is absent or no function, or the attribute name is missing or empty; the
  first of the two is raised by \<open>connectStarRating\<close> itself, before any parameter is
  read.  With a name and no \<open>max\<close> the widget is built with \<open>max = 5\<close>, with a
  \<open>max\<close> it keeps it.  Nothing but the widget or the error is returned.
\<close>

theorem construction_errors:
  "((\<exists>e. build renderFn given = Inl e) \<longleftrightarrow>
      renderFn \<noteq> Callable
      \<or> (case given of
            None \<Rightarrow> True
          | Some p \<Rightarrow> wp_attributeName p = None \<or> wp_attributeName p = Some []))
   \<and> ((\<exists>e. connectStarRating renderFn = Inl e) \<longleftrightarrow> renderFn \<noteq> Callable)
   \<and> (a \<noteq> [] \<longrightarrow>
        build Callable (Some \<lparr>wp_attributeName = Some a, wp_max = None\<rparr>) =
          Inr \<lparr>attributeName = a, maxv = 5,
               params = \<lparr>wp_attributeName = Some a, wp_max = None\<rparr>\<rparr>)
   \<and> (a \<noteq> [] \<longrightarrow>
        build Callable (Some \<lparr>wp_attributeName = Some a, wp_max = Some m\<rparr>) =
          Inr \<lparr>attributeName = a, maxv = m,
               params = \<lparr>wp_attributeName = Some a, wp_max = Some m\<rparr>\<rparr>)"
proof (intro conjI impI)
  show "(\<exists>e. build renderFn given = Inl e) \<longleftrightarrow>
      renderFn \<noteq> Callable
      \<or> (case given of
            None \<Rightarrow> True
          | Some p \<Rightarrow> wp_attributeName p = None \<or> wp_attributeName p = Some [])"
  proof (cases renderFn)
    case Callable
    then show ?thesis
      by (cases given; cases "wp_attributeName (the given)")
         (auto simp add: build_def connectStarRating_def widgetFactory_def Let_def)
  qed (simp_all add: build_def connectStarRating_def)
  show "(\<exists>e. connectStarRating renderFn = Inl e) \<longleftrightarrow> renderFn \<noteq> Callable"
    by (cases renderFn) (simp_all add: connectStarRating_def)
qed (simp_all add: build_def connectStarRating_def widgetFactory_def)

text \<open>
  The name \<open>rating\<close> and no \<open>max\<close> give the widget with \<open>max = 5\<close>; an empty name,
  no parameters and no render function give the usage error.
\<close>

theorem construction_errors_witness:
  "build Callable (Some \<lparr>wp_attributeName = Some ''rating'', wp_max = None\<rparr>) = Inr ex_widget
   \<and> build Callable (Some \<lparr>wp_attributeName = Some '''', wp_max = None\<rparr>) = Inl Usage
   \<and> build Callable None = Inl Usage
   \<and> build NotProvided (Some \<lparr>wp_attributeName = Some ''rating'', wp_max = None\<rparr>) = Inl Usage"
proof -
  have "\<exists>e. build Callable (Some \<lparr>wp_attributeName = Some '''', wp_max = None\<rparr>) = Inl e"
    using construction_errors [of Callable "Some \<lparr>wp_attributeName = Some '''', wp_max = None\<rparr>"]
    by simp
  then obtain e where
    "build Callable (Some \<lparr>wp_attributeName = Some '''', wp_max = None\<rparr>) = Inl e"
    by blast
  then have "build Callable (Some \<lparr>wp_attributeName = Some '''', wp_max = None\<rparr>) = Inl Usage"
    by (cases e) simp
  moreover have "build Callable (Some \<lparr>wp_attributeName = Some ''rating'', wp_max = None\<rparr>)
      = Inr ex_widget"
    using construction_errors [of Callable None "''rating''"] by (simp add: ex_widget_def)
  moreover have "build Callable None = Inl Usage"
    by (simp add: build_def connectStarRating_def widgetFactory_def)
  moreover have
    "build NotProvided (Some \<lparr>wp_attributeName = Some ''rating'', wp_max = None\<rparr>) = Inl Usage"
    by (simp add: build_def connectStarRating_def)
  ultimately show ?thesis
    by simp
qed

text \<open>
  Claim C9.  \<open>render\<close> leaves every refinement of the helper as it was; of the
  helper it calls \<open>getRefinements\<close> for the attribute, once, and nothing else.
\<close>

theorem render_reads_only:
  "refinements (fst (render w h res)) = refinements h
   \<and> calls (fst (render w h res)) = calls h @ [GetRefinements (attributeName w)]"
  by (simp add: render_eq)



end
